theory Spec2Isabelle
  imports Complex_Main
begin

section \<open>Characters and strings\<close>

text \<open>
  The program works on Python \<open>str\<close> values. A character of the model is one code
  point of the string, and the model covers the code points below 256, for which the
  character classes below are the ones CPython uses (\<open>str.strip\<close>, and \<open>\s\<close>, \<open>\w\<close> of
  \<open>re\<close> on a \<open>str\<close> pattern). \<open>length\<close> therefore counts what Python's \<open>len\<close> counts.
\<close>

definition dquote :: char where
  "dquote = CHR 0x22"

definition backslash :: char where
  "backslash = CHR 0x5C"

definition is_space :: "char \<Rightarrow> bool" where
  "is_space c =
     (let n = (of_char c :: nat)
      in (9 \<le> n \<and> n \<le> 13) \<or> (28 \<le> n \<and> n \<le> 32) \<or> n = 133 \<or> n = 160)"

definition is_word :: "char \<Rightarrow> bool" where
  "is_word c =
     (let n = (of_char c :: nat)
      in (48 \<le> n \<and> n \<le> 57) \<or> (65 \<le> n \<and> n \<le> 90) \<or> (97 \<le> n \<and> n \<le> 122) \<or> n = 95
         \<or> n = 170 \<or> n = 178 \<or> n = 179 \<or> n = 181 \<or> n = 185 \<or> n = 186
         \<or> (188 \<le> n \<and> n \<le> 190) \<or> (192 \<le> n \<and> n \<le> 214)
         \<or> (216 \<le> n \<and> n \<le> 246) \<or> (248 \<le> n \<and> n \<le> 255))"

text \<open>\<open>s.strip()\<close>: leading and trailing whitespace removed.\<close>

definition strip :: "string \<Rightarrow> string" where
  "strip s = rev (dropWhile is_space (rev (dropWhile is_space s)))"

text \<open>\<open>str(n)\<close> of a non-negative integer, as the f-string \<open>{count}\<close> formats it.\<close>

definition digit_char :: "nat \<Rightarrow> char" where
  "digit_char d = ''0123456789'' ! d"

fun str_nat :: "nat \<Rightarrow> string" where
  "str_nat n =
     (if n < 10 then [digit_char n] else str_nat (n div 10) @ [digit_char (n mod 10)])"

declare str_nat.simps [simp del]

section \<open>The brace scanner\<close>

text \<open>\<open>line.replace('\\"', '')\<close>: every occurrence of backslash-quote, left to right.\<close>

fun remove_escaped_quotes :: "string \<Rightarrow> string" where
  "remove_escaped_quotes (a # b # cs) =
     (if a = backslash \<and> b = dquote then remove_escaped_quotes cs
      else a # remove_escaped_quotes (b # cs))"
| "remove_escaped_quotes cs = cs"

text \<open>
  \<open>re.sub(r'"[^"]*"', '', clean)\<close>: the leftmost match starts at a quote and ends at the
  next quote; a quote with no later quote matches nothing and stays.
\<close>

function remove_quoted :: "string \<Rightarrow> string" where
  "remove_quoted [] = []"
| "remove_quoted (c # cs) =
     (if c = dquote \<and> dquote \<in> set cs
      then remove_quoted (tl (dropWhile (\<lambda>x. x \<noteq> dquote) cs))
      else c # remove_quoted cs)"
  by pat_completeness auto
termination
proof (relation "measure length")
  show "wf (measure length)" by simp
next
  fix c :: char and cs :: string
  have "length (dropWhile (\<lambda>x. x \<noteq> dquote) cs) \<le> length cs"
    by (rule length_dropWhile_le)
  then show "(tl (dropWhile (\<lambda>x. x \<noteq> dquote) cs), c # cs) \<in> measure length"
    by simp
next
  fix c :: char and cs :: string
  show "(cs, c # cs) \<in> measure length" by simp
qed

definition count_braces_ignoring_strings :: "string \<Rightarrow> int \<times> bool" where
  "count_braces_ignoring_strings line =
     (let clean = remove_escaped_quotes line;
          clean = remove_quoted clean;
          open_count = count_list clean (CHR ''{'');
          close_count = count_list clean (CHR ''}'')
      in (int open_count - int close_count, CHR ''{'' \<in> set clean))"

text \<open>
  The scanner as the specification words it: a span that begins at a double quote and
  ends at the next double quote is deleted. The pending text of a span that is opened
  and never closed is kept.
\<close>

fun drop_spans :: "string option \<Rightarrow> string \<Rightarrow> string" where
  "drop_spans None [] = []"
| "drop_spans (Some pending) [] = pending"
| "drop_spans None (c # cs) =
     (if c = dquote then drop_spans (Some [c]) cs else c # drop_spans None cs)"
| "drop_spans (Some pending) (c # cs) =
     (if c = dquote then drop_spans None cs else drop_spans (Some (pending @ [c])) cs)"

definition scan_spec :: "string \<Rightarrow> int \<times> bool" where
  "scan_spec line =
     (let rest = drop_spans None (remove_escaped_quotes line)
      in (int (count_list rest (CHR ''{'')) - int (count_list rest (CHR ''}'')),
          0 < count_list rest (CHR ''{'')))"

text \<open>The pair the scanner returns for the text that is left after the deletions.\<close>

definition brace_signal :: "string \<Rightarrow> int \<times> bool" where
  "brace_signal rest =
     (int (count_list rest (CHR ''{'')) - int (count_list rest (CHR ''}'')),
      CHR ''{'' \<in> set rest)"

text \<open>The text after the last double quote of a string, and the text before it.\<close>

definition after_last_quote :: "string \<Rightarrow> string" where
  "after_last_quote s = rev (takeWhile (\<lambda>x. x \<noteq> dquote) (rev s))"

definition before_last_quote :: "string \<Rightarrow> string" where
  "before_last_quote s = rev (tl (dropWhile (\<lambda>x. x \<noteq> dquote) (rev s)))"

text \<open>
  The text of a line that lies outside its double-quoted strings, read as JSON reads
  them: a string runs from a quote to the next quote that no backslash escapes, and a
  backslash inside a string escapes the character after it. This is the text whose
  braces the docstring of the scanner means to count.
\<close>

fun outside_strings :: "bool \<Rightarrow> string \<Rightarrow> string" where
  "outside_strings in_string [] = []"
| "outside_strings False (c # cs) =
     (if c = dquote then outside_strings True cs else c # outside_strings False cs)"
| "outside_strings True [c] = []"
| "outside_strings True (c # d # cs) =
     (if c = backslash then outside_strings True cs
      else if c = dquote then outside_strings False (d # cs)
      else outside_strings True (d # cs))"

text \<open>
  The line \<^verbatim>\<open>{"p": "C:\\", "x": "{"}\<close>: its first string ends with an escaped backslash.
\<close>

definition escaped_backslash_line :: string where
  \<open>escaped_backslash_line = ''{"p": "C:'' @ [backslash, backslash] @ ''", "x": "{"}''\<close>

section \<open>Decoded values and the validator\<close>

text \<open>
  What \<open>json.loads\<close> returns: \<open>None\<close>, a bool, an int, a float, a \<open>str\<close>, a list or a
  dict. A dict is an association list of its items; a float is the real number it
  denotes (the program only tests it against zero).
\<close>

datatype json =
    JNull
  | JBool bool
  | JInt int
  | JFloat real
  | JString string
  | JArray "json list"
  | JObject "(string \<times> json) list"

datatype error = TypeError

text \<open>Truth value of a Python object, as \<open>if x\<close> and \<open>not x\<close> test it.\<close>

fun py_truthy :: "json \<Rightarrow> bool" where
  "py_truthy JNull = False"
| "py_truthy (JBool b) = b"
| "py_truthy (JInt i) = (i \<noteq> 0)"
| "py_truthy (JFloat r) = (r \<noteq> 0)"
| "py_truthy (JString s) = (s \<noteq> [])"
| "py_truthy (JArray xs) = (xs \<noteq> [])"
| "py_truthy (JObject kvs) = (kvs \<noteq> [])"

text \<open>\<open>len(x)\<close>: defined on strings, lists and dicts; a TypeError on everything else.\<close>

fun py_len :: "json \<Rightarrow> error + nat" where
  "py_len (JString s) = Inr (length s)"
| "py_len (JArray xs) = Inr (length xs)"
| "py_len (JObject kvs) = Inr (length (remdups (map fst kvs)))"
| "py_len _ = Inl TypeError"

fun is_valid_record :: "json \<Rightarrow> error + bool" where
  "is_valid_record (JObject data) =
     (if data = [] then Inr False
      else
        let has_name = (case map_of data ''name'' of None \<Rightarrow> False | Some v \<Rightarrow> py_truthy v);
            has_company = (map_of data ''company'' \<noteq> None)
        in case (case map_of data ''questions'' of
                   None \<Rightarrow> Inr False
                 | Some q \<Rightarrow> (case py_len q of Inl e \<Rightarrow> Inl e | Inr n \<Rightarrow> Inr (0 < n))) of
             Inl e \<Rightarrow> Inl e
           | Inr has_questions \<Rightarrow> Inr (has_name \<or> (has_company \<and> has_questions)))"
| "is_valid_record _ = Inr False"

text \<open>
  The verdict as the specification words it: a non-empty mapping with a non-empty name,
  or with a company and a non-empty sequence of questions.
\<close>

definition verdict_spec :: "json \<Rightarrow> bool" where
  "verdict_spec v =
     (case v of
        JObject data \<Rightarrow>
          data \<noteq> []
          \<and> ((case map_of data ''name'' of None \<Rightarrow> False | Some n \<Rightarrow> py_truthy n)
             \<or> (map_of data ''company'' \<noteq> None
                 \<and> (case map_of data ''questions'' of
                       Some (JArray qs) \<Rightarrow> qs \<noteq> [] | _ \<Rightarrow> False)))
      | _ \<Rightarrow> False)"

text \<open>
  The verdict with the questions measured as the code measures them, by \<open>len\<close>; and the
  values on which that \<open>len\<close> is defined.
\<close>

definition has_positive_len :: "json \<Rightarrow> bool" where
  "has_positive_len q = (case py_len q of Inl e \<Rightarrow> False | Inr n \<Rightarrow> 0 < n)"

definition verdict :: "json \<Rightarrow> bool" where
  "verdict v =
     (case v of
        JObject data \<Rightarrow>
          data \<noteq> []
          \<and> ((case map_of data ''name'' of None \<Rightarrow> False | Some n \<Rightarrow> py_truthy n)
             \<or> (map_of data ''company'' \<noteq> None
                 \<and> (case map_of data ''questions'' of
                       None \<Rightarrow> False | Some q \<Rightarrow> has_positive_len q)))
      | _ \<Rightarrow> False)"

definition questions_sized :: "json \<Rightarrow> bool" where
  "questions_sized v =
     (case v of
        JObject data \<Rightarrow>
          (case map_of data ''questions'' of None \<Rightarrow> True | Some q \<Rightarrow> \<not> isl (py_len q))
      | _ \<Rightarrow> True)"

text \<open>The records of the specification's examples, and two more.\<close>

definition acme_empty_questions :: json where
  "acme_empty_questions =
     JObject [(''company'', JObject [(''name'', JString ''Acme'')]), (''questions'', JArray [])]"

definition acme_one_question :: json where
  "acme_one_question =
     JObject [(''company'', JObject [(''name'', JString ''Acme'')]),
              (''questions'', JArray [JObject [(''question'', JString ''Q''),
                                               (''answer'', JString [])]])]"

definition questions_number :: json where
  "questions_number = JObject [(''name'', JString ''X''), (''questions'', JInt 5)]"

definition questions_object :: json where
  "questions_object = JObject [(''company'', JNull), (''questions'', JObject [(''a'', JInt 1)])]"

section \<open>File names\<close>

definition clean_filename :: "string \<Rightarrow> string" where
  "clean_filename text =
     (if text = [] then ''Untitled''
      else
        let clean = filter (\<lambda>c. is_word c \<or> is_space c \<or> c = CHR ''-'') text
        in take 100 (strip clean))"

text \<open>
  The duplicate loop of \<open>process_file\<close>. \<open>files\<close> lists the names that exist in the
  output directory, so \<open>fname \<in> set files\<close> is \<open>os.path.exists\<close> of the joined path.
\<close>

definition numbered :: "string \<Rightarrow> nat \<Rightarrow> string" where
  "numbered safe_name count = safe_name @ ''_'' @ str_nat count @ ''.pdf''"


text \<open>Reading a decimal numeral back: the inverse of \<open>str_nat\<close>.\<close>

definition digit_val :: "char \<Rightarrow> nat" where
  "digit_val c = of_char c - 48"

definition nat_of_str :: "string \<Rightarrow> nat" where
  "nat_of_str s = foldl (\<lambda>a c. 10 * a + digit_val c) 0 s"

lemma digit_val_digit_char: "d < 10 \<Longrightarrow> digit_val (digit_char d) = d"
proof -
  assume "d < 10"
  then have "d = 0 \<or> d = 1 \<or> d = 2 \<or> d = 3 \<or> d = 4 \<or> d = 5 \<or> d = 6 \<or> d = 7 \<or> d = 8 \<or> d = 9"
    by arith
  then show ?thesis
    by (auto simp: digit_val_def digit_char_def)
qed

lemma nat_of_str_snoc: "nat_of_str (s @ [c]) = 10 * nat_of_str s + digit_val c"
  by (simp add: nat_of_str_def)

lemma nat_of_str_str_nat: "nat_of_str (str_nat n) = n"
proof (induction n rule: str_nat.induct)
  case (1 n)
  show ?case
  proof (cases "n < 10")
    case True
    then show ?thesis
      by (subst str_nat.simps) (simp add: nat_of_str_def digit_val_digit_char)
  next
    case False
    with 1 have "nat_of_str (str_nat (n div 10)) = n div 10" by simp
    with False show ?thesis
      by (subst str_nat.simps) (simp add: nat_of_str_snoc digit_val_digit_char)
  qed
qed

lemma str_nat_inj: "str_nat m = str_nat n \<Longrightarrow> m = n"
  by (metis nat_of_str_str_nat)

lemma numbered_inj: "numbered s m = numbered s n \<Longrightarrow> m = n"
  by (simp add: numbered_def str_nat_inj)

lemma finite_numbered_in: "finite {k. numbered s k \<in> set files}"
proof -
  have "inj (numbered s)"
    by (rule injI) (rule numbered_inj)
  then have "finite (numbered s -` set files)"
    by (intro finite_vimageI) simp_all
  then show ?thesis by (simp add: vimage_def)
qed

text \<open>
  \<^verbatim>\<open>
  count = 1
  while os.path.exists(os.path.join(OUTPUT_DIR, fname)):
      fname = f"{safe_name}_{count}.pdf"
      count += 1
  \<close>
  The loop ends because a directory holds finitely many names and the numbered names
  are pairwise different.
\<close>

function dedup_loop :: "string list \<Rightarrow> string \<Rightarrow> string \<Rightarrow> nat \<Rightarrow> string" where
  "dedup_loop files safe_name fname count =
     (if fname \<in> set files
      then dedup_loop files safe_name (numbered safe_name count) (count + 1)
      else fname)"
  by pat_completeness auto
termination
proof (relation "measure (\<lambda>(files, safe_name, fname, count).
         card {k. count \<le> k \<and> numbered safe_name k \<in> set files}
         + (if fname \<in> set files then 1 else 0))")
  show "wf (measure (\<lambda>(files, safe_name, fname, count).
         card {k. count \<le> k \<and> numbered safe_name k \<in> set files}
         + (if fname \<in> set files then 1 else 0)))" by simp
next
  fix files :: "string list" and safe_name fname :: string and count :: nat
  assume "fname \<in> set files"
  let ?A = "{k. count \<le> k \<and> numbered safe_name k \<in> set files}"
  let ?B = "{k. count + 1 \<le> k \<and> numbered safe_name k \<in> set files}"
  have fin: "finite ?B"
    by (rule finite_subset [OF _ finite_numbered_in [of safe_name files]]) auto
  have "card ?B + (if numbered safe_name count \<in> set files then 1 else 0) = card ?A"
  proof (cases "numbered safe_name count \<in> set files")
    case True
    then have "?A = insert count ?B" by (auto simp: le_less Suc_le_eq)
    with fin True show ?thesis by simp
  next
    case False
    then have "?A = ?B" by (auto simp: Suc_le_eq le_less)
    with False show ?thesis by simp
  qed
  with \<open>fname \<in> set files\<close>
  show "((files, safe_name, numbered safe_name count, count + 1), (files, safe_name, fname, count))
          \<in> measure (\<lambda>(files, safe_name, fname, count).
         card {k. count \<le> k \<and> numbered safe_name k \<in> set files}
         + (if fname \<in> set files then 1 else 0))"
    by simp
qed

declare dedup_loop.simps [simp del]

definition allocate :: "string list \<Rightarrow> string \<Rightarrow> string" where
  "allocate files title =
     (let safe_name = clean_filename title;
          fname = safe_name @ ''.pdf''
      in dedup_loop files safe_name fname 1)"

section \<open>The extractor\<close>

text \<open>
  The local variables of \<open>process_file\<close>, the names present in the output directory and
  the messages logged inside the line loop. \<open>validated\<close> is a history variable that the
  source does not have: the pairs of title and decoded value that reached
  \<open>is_valid_record\<close>, in order.
\<close>

datatype log_event =
    ParseError nat string
  | SkippedFragment nat
  | PdfFailed string
  | Progress nat nat

record state =
  buffer :: "string list"
  brace_balance :: int
  in_json :: bool
  potential_title :: string
  records_created :: nat
  lines_read :: nat
  files :: "string list"
  log :: "log_event list"
  validated :: "(string \<times> json) list"

text \<open>
  \<open>json.loads\<close> and the PDF backend of \<open>generate_pdf\<close> are not part of the program; they
  are parameters. A decoder returns \<open>None\<close> where \<open>json.loads\<close> raises JSONDecodeError. A
  renderer gets the record, the output name and the title, and returns what
  \<open>generate_pdf\<close> returns; the file exists afterwards when it returns True.
\<close>

type_synonym decoder = "string \<Rightarrow> json option"
type_synonym renderer = "json \<Rightarrow> string \<Rightarrow> string \<Rightarrow> bool"

definition init :: "string list \<Rightarrow> state" where
  "init fs = \<lparr>buffer = [], brace_balance = 0, in_json = False,
     potential_title = ''Untitled'', records_created = 0, lines_read = 0,
     files = fs, log = [], validated = []\<rparr>"

text \<open>The branch of a valid record: file name, duplicates, rendering, counter.\<close>

definition write_pdf :: "renderer \<Rightarrow> state \<Rightarrow> json \<Rightarrow> state" where
  "write_pdf generate_pdf st data =
     (let fname = allocate (files st) (potential_title st)
      in if generate_pdf data fname (potential_title st)
         then
           let n = records_created st + 1
           in st\<lparr>files := fname # files st, records_created := n,
                 log := (if n mod 10 = 0 then log st @ [Progress n (lines_read st)]
                         else log st)\<rparr>
         else st\<lparr>log := log st @ [PdfFailed fname]\<rparr>)"

text \<open>
  The body of \<open>if brace_balance <= 0\<close>. An exception that no handler of the loop
  catches ends the run: the result is \<open>Inl\<close> with the exception and the state in which
  it was raised.
\<close>

definition close_buffer :: "decoder \<Rightarrow> renderer \<Rightarrow> state \<Rightarrow> (error \<times> state) + state" where
  "close_buffer decode generate_pdf st0 =
     (let st = st0\<lparr>in_json := False\<rparr>;
          joined = strip (concat (buffer st));
          full_str = (if joined \<noteq> [] \<and> last joined = CHR '','' then butlast joined
                      else joined)
      in case decode full_str of
           None \<Rightarrow>
             Inr (st\<lparr>log := log st @ [ParseError (lines_read st) (take 50 full_str)],
                     potential_title := ''Untitled''\<rparr>)
         | Some data \<Rightarrow>
             (let st1 = st\<lparr>validated := validated st @ [(potential_title st, data)]\<rparr>
              in case is_valid_record data of
                   Inl e \<Rightarrow> Inl (e, st1)
                 | Inr ok \<Rightarrow>
                     if ok
                     then Inr ((write_pdf generate_pdf st1 data)\<lparr>potential_title := ''Untitled''\<rparr>)
                     else Inr (st1\<lparr>log := log st1 @ [SkippedFragment (lines_read st1)],
                                  potential_title := ''Untitled''\<rparr>)))"

text \<open>One iteration of \<open>for line in f\<close>.\<close>

definition step :: "decoder \<Rightarrow> renderer \<Rightarrow> state \<Rightarrow> string \<Rightarrow> (error \<times> state) + state" where
  "step decode generate_pdf st0 line =
     (let st = st0\<lparr>lines_read := lines_read st0 + 1\<rparr>;
          stripped = strip line
      in if stripped = [] then Inr st
         else
           let (net_change, has_open) = count_braces_ignoring_strings line
           in if \<not> in_json st
              then
                if has_open
                then Inr (st\<lparr>in_json := True, brace_balance := 0 + net_change,
                             buffer := [] @ [line]\<rparr>)
                else
                  if CHR ''{'' \<notin> set stripped \<and> CHR ''}'' \<notin> set stripped
                     \<and> length stripped < 150
                  then Inr (st\<lparr>potential_title := stripped\<rparr>)
                  else Inr st
              else
                let st2 = st\<lparr>buffer := buffer st @ [line],
                             brace_balance := brace_balance st + net_change\<rparr>
                in if brace_balance st2 \<le> 0 then close_buffer decode generate_pdf st2
                   else Inr st2)"

fun process_lines :: "decoder \<Rightarrow> renderer \<Rightarrow> state \<Rightarrow> string list \<Rightarrow> (error \<times> state) + state" where
  "process_lines decode generate_pdf st [] = Inr st"
| "process_lines decode generate_pdf st (line # rest) =
     (case step decode generate_pdf st line of
        Inl e \<Rightarrow> Inl e
      | Inr st' \<Rightarrow> process_lines decode generate_pdf st' rest)"

definition process_file :: "decoder \<Rightarrow> renderer \<Rightarrow> string list \<Rightarrow> string list \<Rightarrow> (error \<times> state) + state" where
  "process_file decode generate_pdf fs lines = process_lines decode generate_pdf (init fs) lines"

section \<open>Sample inputs\<close>

text \<open>
  What \<open>json.loads\<close> returns on the two texts that the sample inputs below hand to it;
  every other text of the samples is not JSON.
\<close>

definition decode_sample :: decoder where
  \<open>decode_sample s =
     (if s = ''{\<newline>"name": "X", "questions": 5\<newline>}'' then Some questions_number
      else if s = ''{\<newline>"name": "X"\<newline>}'' then Some (JObject [(''name'', JString ''X'')])
      else None)\<close>

text \<open>A backend that renders every record, and one that fails on every record.\<close>

definition render_ok :: renderer where
  "render_ok data fname title = True"

definition render_fail :: renderer where
  "render_fail data fname title = False"

text \<open>A title line, one complete object on a single line, a blank line.\<close>

definition single_line_input :: "string list" where
  \<open>single_line_input =
     [''X-ish title\<newline>'',
      ''{ "name": "X", "questions": [{"question":"Q1","answer":"A1"}] }\<newline>'',
      ''\<newline>'']\<close>

text \<open>The same, with a second title line in place of the blank line.\<close>

definition single_line_then_title :: "string list" where
  \<open>single_line_then_title =
     [''X-ish title\<newline>'',
      ''{ "name": "X", "questions": [{"question":"Q1","answer":"A1"}] }\<newline>'',
      ''Next title\<newline>'']\<close>

text \<open>A record over three lines whose questions are a number, and a line after it.\<close>

definition questions_number_lines :: "string list" where
  \<open>questions_number_lines =
     [''Title\<newline>'', ''{\<newline>'', ''"name": "X", "questions": 5\<newline>'', ''}\<newline>'',
      ''next\<newline>'']\<close>

text \<open>A state in which a buffer is open.\<close>

definition accumulating :: state where
  \<open>accumulating = \<lparr>buffer = [''{\<newline>''], brace_balance = 1, in_json = True,
     potential_title = ''Title'', records_created = 0, lines_read = 2,
     files = [], log = [], validated = []\<rparr>\<close>

text \<open>Two records under the same title.\<close>

definition same_title_lines :: "string list" where
  \<open>same_title_lines =
     [''Title\<newline>'', ''{\<newline>'', ''"name": "X"\<newline>'', ''}\<newline>'',
      ''Title\<newline>'', ''{\<newline>'', ''"name": "X"\<newline>'', ''}\<newline>'']\<close>


section \<open>Observations of a run\<close>

text \<open>The state in which a run ended, and the exception that ended it, if any.\<close>

definition final_state :: "(error \<times> state) + state \<Rightarrow> state" where
  "final_state r = (case r of Inl (e, st) \<Rightarrow> st | Inr st \<Rightarrow> st)"

definition raised :: "(error \<times> state) + state \<Rightarrow> error option" where
  "raised r = (case r of Inl (e, st) \<Rightarrow> Some e | Inr st \<Rightarrow> None)"

text \<open>
  The part of the state that belongs to the extraction: everything but the output
  directory, the counter of written files and the log.
\<close>

definition extraction ::
  "state \<Rightarrow> string list \<times> int \<times> bool \<times> string \<times> nat \<times> (string \<times> json) list" where
  "extraction st =
     (buffer st, brace_balance st, in_json st, potential_title st, lines_read st, validated st)"









section \<open>Properties of the scanner\<close>

lemma drop_spans_Some:
  "drop_spans (Some p) cs =
     (if dquote \<in> set cs then drop_spans None (tl (dropWhile (\<lambda>x. x \<noteq> dquote) cs))
      else p @ cs)"
  by (induction cs arbitrary: p) auto

lemma drop_spans_no_quote: "dquote \<notin> set cs \<Longrightarrow> drop_spans None cs = cs"
  by (induction cs) auto

lemma remove_quoted_drop_spans: "remove_quoted cs = drop_spans None cs"
  by (induction cs rule: remove_quoted.induct) (auto simp: drop_spans_Some drop_spans_no_quote)

lemma remove_quoted_no_quote: "dquote \<notin> set cs \<Longrightarrow> remove_quoted cs = cs"
  by (induction cs) auto

lemma count_tl_dropWhile:
  "dquote \<in> set cs \<Longrightarrow>
     Suc (count_list (tl (dropWhile (\<lambda>x. x \<noteq> dquote) cs)) dquote) = count_list cs dquote"
  by (induction cs) auto

lemma remove_quoted_append:
  "even (count_list pre dquote) \<Longrightarrow>
     remove_quoted (pre @ rest) = remove_quoted pre @ remove_quoted rest"
proof (induction pre rule: remove_quoted.induct)
  case 1
  then show ?case by simp
next
  case (2 c cs)
  show ?case
  proof (cases "c = dquote")
    case False
    with 2 show ?thesis by simp
  next
    case True
    with "2.prems" have odd_cs: "odd (count_list cs dquote)" by simp
    then have mem: "dquote \<in> set cs"
      by (metis count_list_0_iff even_zero)
    let ?t = "tl (dropWhile (\<lambda>x. x \<noteq> dquote) cs)"
    from count_tl_dropWhile [OF mem] odd_cs have "even (count_list ?t dquote)"
      by (metis even_Suc)
    with True mem "2.IH"(1)
    have IH: "remove_quoted (?t @ rest) = remove_quoted ?t @ remove_quoted rest" by simp
    from mem have ne: "dropWhile (\<lambda>x. x \<noteq> dquote) cs \<noteq> []" by simp
    from mem have "dropWhile (\<lambda>x. x \<noteq> dquote) (cs @ rest) = dropWhile (\<lambda>x. x \<noteq> dquote) cs @ rest"
      by simp
    with ne have "tl (dropWhile (\<lambda>x. x \<noteq> dquote) (cs @ rest)) = ?t @ rest" by simp
    with True mem IH show ?thesis by simp
  qed
qed

lemma split_last_quote:
  "dquote \<in> set s \<Longrightarrow> s = before_last_quote s @ dquote # after_last_quote s"
proof -
  assume mem: "dquote \<in> set s"
  let ?P = "\<lambda>x. x \<noteq> dquote"
  from mem have ne: "dropWhile ?P (rev s) \<noteq> []" by simp
  then have "hd (dropWhile ?P (rev s)) = dquote"
    using hd_dropWhile [of ?P "rev s"] by simp
  with ne have d: "dropWhile ?P (rev s) = dquote # tl (dropWhile ?P (rev s))"
    by (metis list.collapse)
  have "rev s = takeWhile ?P (rev s) @ dropWhile ?P (rev s)" by simp
  with d have "rev s = takeWhile ?P (rev s) @ dquote # tl (dropWhile ?P (rev s))" by simp
  then have "rev (rev s) = rev (takeWhile ?P (rev s) @ dquote # tl (dropWhile ?P (rev s)))"
    by simp
  then show ?thesis
    by (simp add: before_last_quote_def after_last_quote_def)
qed

lemma after_last_quote_no_quote: "dquote \<notin> set (after_last_quote s)"
  by (auto simp: after_last_quote_def dest: set_takeWhileD)


lemma scan_brace_signal:
  "count_braces_ignoring_strings line = brace_signal (remove_quoted (remove_escaped_quotes line))"
  by (simp add: count_braces_ignoring_strings_def brace_signal_def Let_def)

lemma count_list_pos_iff: "(0 < count_list xs x) = (x \<in> set xs)"
  by (induction xs) auto

lemma scan_eq_scan_spec: "count_braces_ignoring_strings line = scan_spec line"
  by (simp add: scan_brace_signal brace_signal_def scan_spec_def Let_def
      remove_quoted_drop_spans count_list_pos_iff)

lemma scan_example:
  \<open>count_braces_ignoring_strings ''{"a": "b{c}d"}'' = (0, True)\<close>
  by (simp add: count_braces_ignoring_strings_def dquote_def backslash_def)

text \<open>
  Claim C2. The scanner runs the algorithm of the specification: it deletes every
  backslash-quote pair, then every span from a double quote to the next double quote,
  and returns the number of opening braces minus the number of closing braces of the
  remaining text, together with whether an opening brace remains (\<open>scan_spec\<close>); the line
  \<^verbatim>\<open>{"a": "b{c}d"}\<close> gives the delta 0 and an opening brace. The consequence that braces
  inside quoted strings never count does not hold. On the line \<^verbatim>\<open>{"p": "C:\\", "x": "{"}\<close>
  the first deletion takes the second backslash of the escaped backslash together with
  the quote that closes the string; the pairing of the quotes that are left shifts, and
  the brace inside the last string is counted: the scanner returns the delta 1, where the
  text outside the strings of the line has the delta 0.
\<close>

theorem scanner_counts_brace_in_string:
  \<open>count_braces_ignoring_strings line = scan_spec line
   \<and> count_braces_ignoring_strings ''{"a": "b{c}d"}'' = (0, True)
   \<and> remove_quoted (remove_escaped_quotes escaped_backslash_line) = ''{: x{"}''
   \<and> count_braces_ignoring_strings escaped_backslash_line = (1, True)
   \<and> outside_strings False escaped_backslash_line = ''{: , : }''
   \<and> brace_signal (outside_strings False escaped_backslash_line) = (0, True)\<close>
proof (intro conjI)
  show "count_braces_ignoring_strings line = scan_spec line"
    by (rule scan_eq_scan_spec)
next
  show \<open>count_braces_ignoring_strings ''{"a": "b{c}d"}'' = (0, True)\<close>
    by (rule scan_example)
next
  show \<open>remove_quoted (remove_escaped_quotes escaped_backslash_line) = ''{: x{"}''\<close>
    by code_simp
next
  show "count_braces_ignoring_strings escaped_backslash_line = (1, True)"
    by code_simp
next
  show "outside_strings False escaped_backslash_line = ''{: , : }''"
    by code_simp
next
  show "brace_signal (outside_strings False escaped_backslash_line) = (0, True)"
    by code_simp
qed

lemma count_before_last_quote:
  assumes "odd (count_list s dquote)"
  shows "s = before_last_quote s @ dquote # after_last_quote s"
    and "even (count_list (before_last_quote s) dquote)"
proof -
  from assms have mem: "dquote \<in> set s"
    by (metis count_list_0_iff even_zero)
  then show eq: "s = before_last_quote s @ dquote # after_last_quote s"
    by (rule split_last_quote)
  have "count_list (after_last_quote s) dquote = 0"
    by (simp add: after_last_quote_no_quote)
  moreover have "count_list s dquote
      = count_list (before_last_quote s @ dquote # after_last_quote s) dquote"
    using eq by simp
  ultimately have "count_list s dquote = Suc (count_list (before_last_quote s) dquote)"
    by (simp del: count_list_0_iff)
  with assms show "even (count_list (before_last_quote s) dquote)" by simp
qed

text \<open>
  Claim C10. When the line, after the escaped quotes are deleted, holds an odd number of
  double quotes, the last quote is unpaired: the text after it is kept, and every brace
  in it counts towards the delta and the opening-brace flag. The scanner sees one line
  only, so a string left open on a line is not continued on the next one.
\<close>

theorem unterminated_quote_counts_rest:
  assumes "odd (count_list (remove_escaped_quotes line) dquote)"
  shows "(let clean = remove_escaped_quotes line;
              pre = before_last_quote clean;
              post = after_last_quote clean
          in clean = pre @ dquote # post \<and> dquote \<notin> set post
             \<and> count_braces_ignoring_strings line
               = (int (count_list (remove_quoted pre) (CHR ''{'') + count_list post (CHR ''{''))
                  - int (count_list (remove_quoted pre) (CHR ''}'') + count_list post (CHR ''}'')),
                  CHR ''{'' \<in> set (remove_quoted pre) \<or> CHR ''{'' \<in> set post))"
proof -
  let ?c = "remove_escaped_quotes line"
  let ?pre = "before_last_quote ?c" and ?post = "after_last_quote ?c"
  from count_before_last_quote [OF assms]
  have eq: "?c = ?pre @ dquote # ?post" and ev: "even (count_list ?pre dquote)" by simp_all
  have nq: "dquote \<notin> set ?post" by (rule after_last_quote_no_quote)
  have "remove_quoted ?c = remove_quoted (?pre @ dquote # ?post)"
    using eq by simp
  also have "\<dots> = remove_quoted ?pre @ remove_quoted (dquote # ?post)"
    using ev by (rule remove_quoted_append)
  also have "\<dots> = remove_quoted ?pre @ dquote # ?post"
    using nq by (simp add: remove_quoted_no_quote)
  finally have rq: "remove_quoted ?c = remove_quoted ?pre @ dquote # ?post" .
  have "count_braces_ignoring_strings line = brace_signal (remove_quoted ?pre @ dquote # ?post)"
    by (simp add: scan_brace_signal rq)
  then have "count_braces_ignoring_strings line
               = (int (count_list (remove_quoted ?pre) (CHR ''{'') + count_list ?post (CHR ''{''))
                  - int (count_list (remove_quoted ?pre) (CHR ''}'') + count_list ?post (CHR ''}'')),
                  CHR ''{'' \<in> set (remove_quoted ?pre) \<or> CHR ''{'' \<in> set ?post)"
    by (simp add: brace_signal_def dquote_def)
  with eq nq show ?thesis by (simp add: Let_def)
qed

theorem unterminated_quote_counts_rest_witness:
  \<open>odd (count_list (remove_escaped_quotes ''{ "a": "x", "note": "open { and } {'') dquote)
   \<and> after_last_quote (remove_escaped_quotes ''{ "a": "x", "note": "open { and } {'')
       = ''open { and } {''
   \<and> count_braces_ignoring_strings ''{ "a": "x", "note": "open { and } {'' = (2, True)\<close>
proof -
  have h: \<open>odd (count_list (remove_escaped_quotes ''{ "a": "x", "note": "open { and } {'') dquote)\<close>
    by code_simp
  have a: \<open>after_last_quote (remove_escaped_quotes ''{ "a": "x", "note": "open { and } {'')
       = ''open { and } {''\<close>
    by code_simp
  have b: \<open>remove_quoted (before_last_quote
        (remove_escaped_quotes ''{ "a": "x", "note": "open { and } {'')) = ''{ : , : ''\<close>
    by code_simp
  have v: \<open>(int (count_list ''{ : , : '' (CHR ''{'') + count_list ''open { and } {'' (CHR ''{''))
              - int (count_list ''{ : , : '' (CHR ''}'') + count_list ''open { and } {'' (CHR ''}'')),
             CHR ''{'' \<in> set ''{ : , : '' \<or> CHR ''{'' \<in> set ''open { and } {'') = (2, True)\<close>
    by code_simp
  note t = unterminated_quote_counts_rest [OF h, unfolded Let_def]
  from t have \<open>count_braces_ignoring_strings ''{ "a": "x", "note": "open { and } {''
      = (int (count_list (remove_quoted (before_last_quote
                (remove_escaped_quotes ''{ "a": "x", "note": "open { and } {''))) (CHR ''{'')
              + count_list (after_last_quote
                (remove_escaped_quotes ''{ "a": "x", "note": "open { and } {'')) (CHR ''{''))
         - int (count_list (remove_quoted (before_last_quote
                (remove_escaped_quotes ''{ "a": "x", "note": "open { and } {''))) (CHR ''}'')
              + count_list (after_last_quote
                (remove_escaped_quotes ''{ "a": "x", "note": "open { and } {'')) (CHR ''}'')),
         CHR ''{'' \<in> set (remove_quoted (before_last_quote
                (remove_escaped_quotes ''{ "a": "x", "note": "open { and } {'')))
         \<or> CHR ''{'' \<in> set (after_last_quote
                (remove_escaped_quotes ''{ "a": "x", "note": "open { and } {'')))\<close>
    by (rule conjunct2 [THEN conjunct2])
  then have c: \<open>count_braces_ignoring_strings ''{ "a": "x", "note": "open { and } {'' = (2, True)\<close>
    by (simp only: a b v)
  from h a c show ?thesis by (intro conjI)
qed

section \<open>Properties of the validator\<close>

lemma is_valid_record_sized:
  "questions_sized v \<Longrightarrow> is_valid_record v = Inr (verdict v)"
  by (cases v)
     (auto simp: questions_sized_def verdict_def has_positive_len_def Let_def
           split: option.splits sum.splits)

text \<open>
  Claim C4, as stated, fails. For \<open>{"name": "X", "questions": 5}\<close> the specification's
  verdict is true and the validator returns nothing: \<open>len\<close> raises TypeError. For
  \<open>{"company": null, "questions": {"a": 1}}\<close> the questions are not a sequence, the
  specification's verdict is false, and the validator returns True.
\<close>

theorem validator_counterexample:
  "is_valid_record questions_number = Inl TypeError \<and> verdict_spec questions_number
   \<and> is_valid_record questions_object = Inr True \<and> \<not> verdict_spec questions_object"
  by (simp add: questions_number_def questions_object_def verdict_spec_def)

text \<open>
  Claim C4, amended. Whenever the questions field is absent or holds a value that has a
  length (a list, a string or a mapping), the validator returns True exactly when the
  value is a non-empty mapping and either its name is present and truthy or its company
  is present and its questions have a positive length. The empty mapping and the record
  with an empty list of questions give False; the record with one question gives True.
\<close>

theorem validator_verdict:
  "(questions_sized v \<longrightarrow> is_valid_record v = Inr (verdict v))
   \<and> is_valid_record (JObject []) = Inr False
   \<and> is_valid_record acme_empty_questions = Inr False
   \<and> is_valid_record acme_one_question = Inr True"
  by (simp add: is_valid_record_sized acme_empty_questions_def acme_one_question_def)

theorem validator_verdict_witness:
  "questions_sized acme_one_question \<and> verdict acme_one_question
   \<and> is_valid_record acme_one_question = Inr True"
proof -
  have h: "questions_sized acme_one_question"
    by (simp add: questions_sized_def acme_one_question_def)
  have v: "verdict acme_one_question"
    by (simp add: verdict_def has_positive_len_def acme_one_question_def)
  from validator_verdict [of acme_one_question] h
  have "is_valid_record acme_one_question = Inr (verdict acme_one_question)" by blast
  with h v show ?thesis by simp
qed

section \<open>Properties of the file names\<close>

text \<open>
  Claim C6 at the title \<open>!!!\<close>: the title is not empty, so the test for the fallback
  does not fire; sanitising removes every character, and the result is the empty string,
  not \<open>Untitled\<close>. The file written for such a record is \<open>.pdf\<close>.
\<close>

theorem clean_filename_empty_result:
  "clean_filename ''!!!'' = [] \<and> allocate [] ''!!!'' = ''.pdf''"
  by code_simp

lemma dedup_loop_free: "dedup_loop fs s fname count \<notin> set fs"
proof (induction fs s fname count rule: dedup_loop.induct)
  case (1 fs s fname count)
  then show ?case by (subst dedup_loop.simps) simp
qed

lemma dedup_loop_unused: "fname \<notin> set fs \<Longrightarrow> dedup_loop fs s fname count = fname"
  by (subst dedup_loop.simps) simp

lemma dedup_loop_first:
  "fname \<in> set fs \<Longrightarrow> count \<le> k \<Longrightarrow> \<forall>j\<in>{count..<k}. numbered s j \<in> set fs \<Longrightarrow>
   numbered s k \<notin> set fs \<Longrightarrow> dedup_loop fs s fname count = numbered s k"
proof (induction fs s fname count rule: dedup_loop.induct)
  case (1 fs s fname count)
  show ?case
  proof (cases "count = k")
    case True
    with "1.prems" show ?thesis
      by (subst dedup_loop.simps) (simp add: dedup_loop_unused)
  next
    case False
    with "1.prems" have lt: "count < k" by simp
    with "1.prems" have mem: "numbered s count \<in> set fs" by simp
    from lt have le: "count + 1 \<le> k" by simp
    from "1.prems" have all: "\<forall>j\<in>{count + 1..<k}. numbered s j \<in> set fs" by simp
    from "1.IH" [OF "1.prems"(1) mem le all "1.prems"(4)] "1.prems"(1)
    show ?thesis by (subst dedup_loop.simps) simp
  qed
qed

lemma dedup_loop_numbered:
  "fname \<in> set fs \<Longrightarrow> \<exists>k\<ge>count. dedup_loop fs s fname count = numbered s k"
proof (induction fs s fname count rule: dedup_loop.induct)
  case (1 fs s fname count)
  show ?case
  proof (cases "numbered s count \<in> set fs")
    case True
    from "1.IH" [OF "1.prems" True] obtain k where "count + 1 \<le> k"
      and "dedup_loop fs s (numbered s count) (count + 1) = numbered s k" by blast
    with "1.prems" show ?thesis
      by (subst dedup_loop.simps) (auto intro: exI [of _ k])
  next
    case False
    with "1.prems" have "dedup_loop fs s fname count = numbered s count"
      by (subst dedup_loop.simps) (simp add: dedup_loop_unused)
    then show ?thesis by blast
  qed
qed

lemma numbered_neq_base: "numbered s k \<noteq> s @ ''.pdf''"
  by (simp add: numbered_def)

text \<open>
  Claim C7. The name allocated for a record does not exist in the output directory. It
  is the sanitized title with the extension when that name is free; otherwise it is the
  sanitized title with \<open>_k\<close> before the extension, for the first \<open>k\<close> in 1, 2, \<dots> whose
  name is free: every earlier numbered name exists. Once the first record of a title has
  been written, the next record of the same title gets the name numbered 1, so two
  records of one run give \<open>Title.pdf\<close>, then \<open>Title_1.pdf\<close>.
\<close>

theorem allocate_first_free:
  "allocate fs title \<notin> set fs
   \<and> (clean_filename title @ ''.pdf'' \<notin> set fs \<longrightarrow>
        allocate fs title = clean_filename title @ ''.pdf'')
   \<and> (clean_filename title @ ''.pdf'' \<in> set fs \<longrightarrow>
        (\<exists>k\<ge>1. allocate fs title = numbered (clean_filename title) k))
   \<and> (clean_filename title @ ''.pdf'' \<in> set fs \<and> 1 \<le> k
        \<and> (\<forall>j\<in>{1..<k}. numbered (clean_filename title) j \<in> set fs)
        \<and> numbered (clean_filename title) k \<notin> set fs \<longrightarrow>
        allocate fs title = numbered (clean_filename title) k)
   \<and> (clean_filename title @ ''.pdf'' \<notin> set fs
        \<and> numbered (clean_filename title) 1 \<notin> set fs \<longrightarrow>
        allocate (allocate fs title # fs) title = numbered (clean_filename title) 1)"
proof (intro conjI impI)
  show "allocate fs title \<notin> set fs"
    by (simp add: allocate_def Let_def dedup_loop_free)
next
  assume "clean_filename title @ ''.pdf'' \<notin> set fs"
  then show "allocate fs title = clean_filename title @ ''.pdf''"
    by (simp add: allocate_def Let_def dedup_loop_unused)
next
  assume "clean_filename title @ ''.pdf'' \<in> set fs"
  then show "\<exists>k\<ge>1. allocate fs title = numbered (clean_filename title) k"
    by (simp add: allocate_def Let_def dedup_loop_numbered)
next
  assume "clean_filename title @ ''.pdf'' \<in> set fs \<and> 1 \<le> k
        \<and> (\<forall>j\<in>{1..<k}. numbered (clean_filename title) j \<in> set fs)
        \<and> numbered (clean_filename title) k \<notin> set fs"
  then show "allocate fs title = numbered (clean_filename title) k"
    by (simp add: allocate_def Let_def dedup_loop_first)
next
  assume h: "clean_filename title @ ''.pdf'' \<notin> set fs
        \<and> numbered (clean_filename title) 1 \<notin> set fs"
  then have a: "allocate fs title = clean_filename title @ ''.pdf''"
    by (simp add: allocate_def Let_def dedup_loop_unused)
  have "dedup_loop ((clean_filename title @ ''.pdf'') # fs) (clean_filename title)
          (clean_filename title @ ''.pdf'') 1 = numbered (clean_filename title) 1"
    using h by (intro dedup_loop_first) (simp_all add: numbered_neq_base)
  with a show "allocate (allocate fs title # fs) title = numbered (clean_filename title) 1"
    by (simp add: allocate_def Let_def)
qed

theorem allocate_first_free_witness:
  \<open>clean_filename ''Title'' @ ''.pdf'' \<in> set [''Title.pdf'', ''Title_1.pdf''] \<and> (1::nat) \<le> 2
   \<and> numbered (clean_filename ''Title'') 1 \<in> set [''Title.pdf'', ''Title_1.pdf'']
   \<and> numbered (clean_filename ''Title'') 2 \<notin> set [''Title.pdf'', ''Title_1.pdf'']
   \<and> allocate [''Title.pdf'', ''Title_1.pdf''] ''Title'' = ''Title_2.pdf''
   \<and> clean_filename ''Title'' @ ''.pdf'' \<notin> set [] \<and> numbered (clean_filename ''Title'') 1 \<notin> set []
   \<and> allocate [] ''Title'' = ''Title.pdf''
   \<and> allocate [''Title.pdf''] ''Title'' = ''Title_1.pdf''
   \<and> process_file decode_sample render_ok [] same_title_lines =
       Inr \<lparr>buffer = [''{\<newline>'', ''"name": "X"\<newline>'', ''}\<newline>''], brace_balance = 0,
            in_json = False, potential_title = ''Untitled'', records_created = 2,
            lines_read = 8, files = [''Title_1.pdf'', ''Title.pdf''], log = [],
            validated = [(''Title'', JObject [(''name'', JString ''X'')]),
                         (''Title'', JObject [(''name'', JString ''X'')])]\<rparr>\<close>
proof -
  have h1: \<open>clean_filename ''Title'' @ ''.pdf'' \<in> set [''Title.pdf'', ''Title_1.pdf''] \<and> (1::nat) \<le> 2
   \<and> (\<forall>j\<in>{1..<2::nat}. numbered (clean_filename ''Title'') j \<in> set [''Title.pdf'', ''Title_1.pdf''])
   \<and> numbered (clean_filename ''Title'') 2 \<notin> set [''Title.pdf'', ''Title_1.pdf'']\<close>
    by code_simp
  have m: \<open>numbered (clean_filename ''Title'') 1 \<in> set [''Title.pdf'', ''Title_1.pdf'']\<close>
    by code_simp
  have h2: \<open>clean_filename ''Title'' @ ''.pdf'' \<notin> set [] \<and> numbered (clean_filename ''Title'') 1 \<notin> set []\<close>
    by simp
  have n: \<open>numbered (clean_filename ''Title'') 2 = ''Title_2.pdf''\<close>
      \<open>numbered (clean_filename ''Title'') 1 = ''Title_1.pdf''\<close>
      \<open>clean_filename ''Title'' @ ''.pdf'' = ''Title.pdf''\<close>
    by code_simp+
  from allocate_first_free [of \<open>[''Title.pdf'', ''Title_1.pdf'']\<close> \<open>''Title''\<close> 2] h1
  have a1: \<open>allocate [''Title.pdf'', ''Title_1.pdf''] ''Title'' = numbered (clean_filename ''Title'') 2\<close>
    by blast
  from allocate_first_free [of \<open>[]\<close> \<open>''Title''\<close> 1] h2
  have a2: \<open>allocate [] ''Title'' = clean_filename ''Title'' @ ''.pdf''\<close>
    and a3: \<open>allocate (allocate [] ''Title'' # []) ''Title'' = numbered (clean_filename ''Title'') 1\<close>
    by blast+
  have r: \<open>process_file decode_sample render_ok [] same_title_lines =
       Inr \<lparr>buffer = [''{\<newline>'', ''"name": "X"\<newline>'', ''}\<newline>''], brace_balance = 0,
            in_json = False, potential_title = ''Untitled'', records_created = 2,
            lines_read = 8, files = [''Title_1.pdf'', ''Title.pdf''], log = [],
            validated = [(''Title'', JObject [(''name'', JString ''X'')]),
                         (''Title'', JObject [(''name'', JString ''X'')])]\<rparr>\<close>
    by code_simp
  from a3 have a3': \<open>allocate [''Title.pdf''] ''Title'' = ''Title_1.pdf''\<close>
    by (simp only: a2 n)
  from h1 m h2 a1 a2 a3' r show ?thesis by (simp only: n) blast
qed

section \<open>Properties of the extractor\<close>

lemma step_blank:
  "strip line = [] \<Longrightarrow> step d g st line = Inr (st\<lparr>lines_read := lines_read st + 1\<rparr>)"
  by (simp add: step_def Let_def)

lemma step_idle:
  "strip line \<noteq> [] \<Longrightarrow> \<not> in_json st \<Longrightarrow>
   step d g st line =
     Inr (if snd (count_braces_ignoring_strings line)
          then st\<lparr>lines_read := lines_read st + 1, in_json := True,
                  brace_balance := fst (count_braces_ignoring_strings line), buffer := [line]\<rparr>
          else if CHR ''{'' \<notin> set (strip line) \<and> CHR ''}'' \<notin> set (strip line)
                  \<and> length (strip line) < 150
               then st\<lparr>lines_read := lines_read st + 1, potential_title := strip line\<rparr>
               else st\<lparr>lines_read := lines_read st + 1\<rparr>)"
  by (simp add: step_def Let_def split: prod.splits)

lemma step_accumulating:
  "strip line \<noteq> [] \<Longrightarrow> in_json st \<Longrightarrow>
   step d g st line =
     (if brace_balance st + fst (count_braces_ignoring_strings line) \<le> 0
      then close_buffer d g
             (st\<lparr>lines_read := lines_read st + 1, buffer := buffer st @ [line],
                 brace_balance := brace_balance st + fst (count_braces_ignoring_strings line)\<rparr>)
      else Inr (st\<lparr>lines_read := lines_read st + 1, buffer := buffer st @ [line],
                 brace_balance := brace_balance st + fst (count_braces_ignoring_strings line)\<rparr>))"
  by (simp add: step_def Let_def split: prod.splits)

text \<open>
  Claim C1 on its own example: a title line, one complete object on a single line, a
  blank line. The opening line starts the balance at its own delta, which is 0; the test
  \<open>brace_balance <= 0\<close> stands only in the branch of an open buffer, so the opening line is
  never tested. After the three lines the buffer is still open, nothing was decoded or
  validated and no record was written, whatever the decoder, the backend and the output
  directory are. With a second title in place of the blank line, that title closes the
  buffer; the object and the title are decoded as one text, which fails, and the record
  is lost.
\<close>

theorem single_line_object_not_emitted:
  \<open>process_file decode generate_pdf fs single_line_input =
     Inr \<lparr>buffer = [''{ "name": "X", "questions": [{"question":"Q1","answer":"A1"}] }\<newline>''],
          brace_balance = 0, in_json = True, potential_title = ''X-ish title'',
          records_created = 0, lines_read = 3, files = fs, log = [], validated = []\<rparr>
   \<and> process_file decode_sample generate_pdf fs single_line_then_title =
     Inr \<lparr>buffer = [''{ "name": "X", "questions": [{"question":"Q1","answer":"A1"}] }\<newline>'',
                    ''Next title\<newline>''],
          brace_balance = 0, in_json = False, potential_title = ''Untitled'',
          records_created = 0, lines_read = 3, files = fs,
          log = [ParseError 3 ''{ "name": "X", "questions": [{"question":"Q1","ans''],
          validated = []\<rparr>\<close>
proof (rule conjI)
  show \<open>process_file decode generate_pdf fs single_line_input =
     Inr \<lparr>buffer = [''{ "name": "X", "questions": [{"question":"Q1","answer":"A1"}] }\<newline>''],
          brace_balance = 0, in_json = True, potential_title = ''X-ish title'',
          records_created = 0, lines_read = 3, files = fs, log = [], validated = []\<rparr>\<close>
    unfolding single_line_input_def process_file_def by code_simp
next
  show \<open>process_file decode_sample generate_pdf fs single_line_then_title =
     Inr \<lparr>buffer = [''{ "name": "X", "questions": [{"question":"Q1","answer":"A1"}] }\<newline>'',
                    ''Next title\<newline>''],
          brace_balance = 0, in_json = False, potential_title = ''Untitled'',
          records_created = 0, lines_read = 3, files = fs,
          log = [ParseError 3 ''{ "name": "X", "questions": [{"question":"Q1","ans''],
          validated = []\<rparr>\<close>
    unfolding single_line_then_title_def process_file_def by code_simp
qed

text \<open>
  Claim C3, as stated, fails. After the opening line \<open>{\<close> the buffer is open; the blank
  line that follows is counted and nothing else: the buffer holds the opening line only.
\<close>

theorem blank_line_not_appended:
  \<open>process_file decode_sample render_ok [] [''{\<newline>''] =
     Inr \<lparr>buffer = [''{\<newline>''], brace_balance = 1, in_json = True,
          potential_title = ''Untitled'', records_created = 0, lines_read = 1,
          files = [], log = [], validated = []\<rparr>
   \<and> process_file decode_sample render_ok [] [''{\<newline>'', ''\<newline>''] =
     Inr \<lparr>buffer = [''{\<newline>''], brace_balance = 1, in_json = True,
          potential_title = ''Untitled'', records_created = 0, lines_read = 2,
          files = [], log = [], validated = []\<rparr>\<close>
  by code_simp

text \<open>
  Claim C3, amended. A blank or whitespace-only line is ignored in both states: it is
  counted as read, and the buffer, the balance, the state and the title stay as they are.
  While a buffer is open, every line that is not blank is appended to the buffer and its
  delta is added to the balance; when the balance is then positive the step ends there,
  and otherwise the buffer with the line appended is closed.
\<close>

theorem step_skips_blank_appends_other:
  "(strip line = [] \<longrightarrow>
      step decode generate_pdf st line = Inr (st\<lparr>lines_read := lines_read st + 1\<rparr>))
   \<and> (strip line \<noteq> [] \<and> in_json st
        \<and> 0 < brace_balance st + fst (count_braces_ignoring_strings line) \<longrightarrow>
      step decode generate_pdf st line =
        Inr (st\<lparr>lines_read := lines_read st + 1, buffer := buffer st @ [line],
               brace_balance := brace_balance st + fst (count_braces_ignoring_strings line)\<rparr>))
   \<and> (strip line \<noteq> [] \<and> in_json st
        \<and> brace_balance st + fst (count_braces_ignoring_strings line) \<le> 0 \<longrightarrow>
      step decode generate_pdf st line =
        close_buffer decode generate_pdf
          (st\<lparr>lines_read := lines_read st + 1, buffer := buffer st @ [line],
              brace_balance := brace_balance st + fst (count_braces_ignoring_strings line)\<rparr>))"
  by (simp add: step_def Let_def split: prod.splits)

theorem step_skips_blank_appends_other_witness:
  \<open>strip ''  \<newline>'' = []
   \<and> step decode_sample render_ok accumulating ''  \<newline>''
       = Inr (accumulating\<lparr>lines_read := 3\<rparr>)
   \<and> strip ''"a": {\<newline>'' \<noteq> [] \<and> in_json accumulating
   \<and> 0 < brace_balance accumulating + fst (count_braces_ignoring_strings ''"a": {\<newline>'')
   \<and> step decode_sample render_ok accumulating ''"a": {\<newline>''
       = Inr (accumulating\<lparr>lines_read := 3, buffer := [''{\<newline>'', ''"a": {\<newline>''],
                            brace_balance := 2\<rparr>)
   \<and> strip ''}\<newline>'' \<noteq> []
   \<and> brace_balance accumulating + fst (count_braces_ignoring_strings ''}\<newline>'') \<le> 0
   \<and> step decode_sample render_ok accumulating ''}\<newline>''
       = close_buffer decode_sample render_ok
           (accumulating\<lparr>lines_read := 3, buffer := [''{\<newline>'', ''}\<newline>''],
                          brace_balance := 0\<rparr>)\<close>
proof -
  have b: \<open>strip ''  \<newline>'' = []\<close> by code_simp
  have n1: \<open>strip ''"a": {\<newline>'' \<noteq> [] \<and> in_json accumulating
      \<and> 0 < brace_balance accumulating + fst (count_braces_ignoring_strings ''"a": {\<newline>'')\<close>
    by code_simp
  have n2: \<open>strip ''}\<newline>'' \<noteq> [] \<and> in_json accumulating
      \<and> brace_balance accumulating + fst (count_braces_ignoring_strings ''}\<newline>'') \<le> 0\<close>
    by code_simp
  have v1: \<open>brace_balance accumulating + fst (count_braces_ignoring_strings ''"a": {\<newline>'') = 2\<close>
    by code_simp
  have v2: \<open>brace_balance accumulating + fst (count_braces_ignoring_strings ''}\<newline>'') = 0\<close>
    by code_simp
  have l: "lines_read accumulating + 1 = 3" "buffer accumulating = [''{\<newline>'']"
    by (simp_all add: accumulating_def)
  note t1 = step_skips_blank_appends_other [of \<open>''  \<newline>''\<close> decode_sample render_ok accumulating]
  note t2 = step_skips_blank_appends_other [of \<open>''"a": {\<newline>''\<close> decode_sample render_ok accumulating]
  note t3 = step_skips_blank_appends_other [of \<open>''}\<newline>''\<close> decode_sample render_ok accumulating]
  have s1: \<open>step decode_sample render_ok accumulating ''  \<newline>''
       = Inr (accumulating\<lparr>lines_read := 3\<rparr>)\<close>
    using t1 [THEN conjunct1, THEN mp, OF b] by (simp only: l)
  have s2: \<open>step decode_sample render_ok accumulating ''"a": {\<newline>''
       = Inr (accumulating\<lparr>lines_read := 3, buffer := [''{\<newline>'', ''"a": {\<newline>''],
                            brace_balance := 2\<rparr>)\<close>
    using t2 [THEN conjunct2, THEN conjunct1, THEN mp, OF n1] by (simp only: l v1 append.simps)
  have s3: \<open>step decode_sample render_ok accumulating ''}\<newline>''
       = close_buffer decode_sample render_ok
           (accumulating\<lparr>lines_read := 3, buffer := [''{\<newline>'', ''}\<newline>''],
                          brace_balance := 0\<rparr>)\<close>
    using t3 [THEN conjunct2, THEN conjunct2, THEN mp, OF n2] by (simp only: l v2 append.simps)
  from b n1 n2 s1 s2 s3 show ?thesis by blast
qed

text \<open>
  Claim C5 at a record whose questions are a number. The record closes on the fourth
  line and decodes; \<open>len\<close> raises TypeError inside the validator, the only handler around
  it catches JSONDecodeError, and the exception leaves the line loop: the run ends there,
  the fifth line is never read, and the title is not reset.
\<close>

theorem type_error_escapes:
  \<open>process_file decode_sample generate_pdf fs questions_number_lines =
     Inl (TypeError,
          \<lparr>buffer = [''{\<newline>'', ''"name": "X", "questions": 5\<newline>'', ''}\<newline>''],
           brace_balance = 0, in_json = False, potential_title = ''Title'',
           records_created = 0, lines_read = 4, files = fs, log = [],
           validated = [(''Title'', questions_number)]\<rparr>)\<close>
  unfolding questions_number_lines_def process_file_def by code_simp














lemma extraction_write_pdf:
  "extraction ((write_pdf g st data)\<lparr>potential_title := t\<rparr>)
     = extraction (st\<lparr>potential_title := t\<rparr>)"
  by (simp add: write_pdf_def extraction_def Let_def)

lemma close_buffer_extraction:
  assumes "extraction st1 = extraction st2"
  shows "raised (close_buffer d g1 st1) = raised (close_buffer d g2 st2)
       \<and> extraction (final_state (close_buffer d g1 st1))
           = extraction (final_state (close_buffer d g2 st2))"
proof -
  from assms have e: "buffer st1 = buffer st2" "brace_balance st1 = brace_balance st2"
      "potential_title st1 = potential_title st2" "lines_read st1 = lines_read st2"
      "validated st1 = validated st2"
    by (simp_all add: extraction_def)
  show ?thesis
    by (simp add: close_buffer_def Let_def e raised_def final_state_def extraction_write_pdf
          split: option.splits sum.splits)
       (simp add: extraction_def e)
qed

lemma step_extraction:
  assumes "extraction st1 = extraction st2"
  shows "raised (step d g1 st1 line) = raised (step d g2 st2 line)
       \<and> extraction (final_state (step d g1 st1 line))
           = extraction (final_state (step d g2 st2 line))"
proof -
  from assms have e: "buffer st1 = buffer st2" "brace_balance st1 = brace_balance st2"
      "in_json st1 = in_json st2"
      "potential_title st1 = potential_title st2" "lines_read st1 = lines_read st2"
      "validated st1 = validated st2"
    by (simp_all add: extraction_def)
  show ?thesis
  proof (cases "strip line = []")
    case True
    then show ?thesis
      by (simp add: step_blank raised_def final_state_def extraction_def e)
  next
    case False
    show ?thesis
    proof (cases "in_json st2")
      case idle: False
      with False e show ?thesis
        by (simp add: step_idle raised_def final_state_def extraction_def)
    next
      case True
      let ?a = "st1\<lparr>lines_read := lines_read st1 + 1, buffer := buffer st1 @ [line],
               brace_balance := brace_balance st1 + fst (count_braces_ignoring_strings line)\<rparr>"
      let ?b = "st2\<lparr>lines_read := lines_read st2 + 1, buffer := buffer st2 @ [line],
               brace_balance := brace_balance st2 + fst (count_braces_ignoring_strings line)\<rparr>"
      have x: "extraction ?a = extraction ?b"
        by (simp add: extraction_def e)
      show ?thesis
      proof (cases "brace_balance st2 + fst (count_braces_ignoring_strings line) \<le> 0")
        case closes: True
        with False True e have "step d g1 st1 line = close_buffer d g1 ?a"
          and "step d g2 st2 line = close_buffer d g2 ?b"
          by (simp_all add: step_accumulating)
        with close_buffer_extraction [OF x, of d g1 g2] show ?thesis by simp
      next
        case stays: False
        with False True e have "step d g1 st1 line = Inr ?a"
          and "step d g2 st2 line = Inr ?b"
          by (simp_all add: step_accumulating)
        with x show ?thesis by (simp add: raised_def final_state_def)
      qed
    qed
  qed
qed

lemma process_lines_extraction:
  "extraction st1 = extraction st2 \<Longrightarrow>
   raised (process_lines d g1 st1 lines) = raised (process_lines d g2 st2 lines)
   \<and> extraction (final_state (process_lines d g1 st1 lines))
       = extraction (final_state (process_lines d g2 st2 lines))"
proof (induction lines arbitrary: st1 st2)
  case Nil
  then show ?case by (simp add: raised_def final_state_def)
next
  case (Cons line rest)
  from step_extraction [OF Cons.prems, of d g1 line g2]
  have r: "raised (step d g1 st1 line) = raised (step d g2 st2 line)"
    and x: "extraction (final_state (step d g1 st1 line))
           = extraction (final_state (step d g2 st2 line))" by simp_all
  show ?case
  proof (cases "step d g1 st1 line")
    case (Inl a)
    with r obtain b where b: "step d g2 st2 line = Inl b"
      by (cases "step d g2 st2 line") (auto simp: raised_def split: prod.splits)
    from Inl b r x show ?thesis
      by (simp add: raised_def final_state_def split: prod.splits)
  next
    case (Inr s1)
    with r obtain s2 where s2: "step d g2 st2 line = Inr s2"
      by (cases "step d g2 st2 line") (auto simp: raised_def split: prod.splits)
    from Inr s2 x have "extraction s1 = extraction s2" by (simp add: final_state_def)
    from Cons.IH [OF this] Inr s2 show ?thesis by simp
  qed
qed

text \<open>
  Claim C9. The sequence of pairs of pending title and decoded record that a run hands to
  the validator is a function of the input lines and of the decoder: it is the same for
  every backend and every content of the output directory, so a second run on the same
  lines, which finds the files of the first run, extracts the same records. The same
  holds for the exception that ends the run, if any, and for the buffer, the balance, the
  state, the title and the line counter at the end.
\<close>

theorem extraction_deterministic:
  "validated (final_state (process_file decode generate_pdf fs lines))
     = validated (final_state (process_file decode generate_pdf' fs' lines))
   \<and> raised (process_file decode generate_pdf fs lines)
     = raised (process_file decode generate_pdf' fs' lines)
   \<and> extraction (final_state (process_file decode generate_pdf fs lines))
     = extraction (final_state (process_file decode generate_pdf' fs' lines))"
proof -
  have "extraction (init fs) = extraction (init fs')"
    by (simp add: extraction_def init_def)
  from process_lines_extraction [OF this, of decode generate_pdf lines generate_pdf']
  show ?thesis
    by (simp add: process_file_def extraction_def)
qed

theorem extraction_deterministic_witness:
  \<open>validated (final_state (process_file decode_sample render_ok [] same_title_lines))
     = [(''Title'', JObject [(''name'', JString ''X'')]),
        (''Title'', JObject [(''name'', JString ''X'')])]
   \<and> validated (final_state (process_file decode_sample render_fail [''Title.pdf''] same_title_lines))
     = [(''Title'', JObject [(''name'', JString ''X'')]),
        (''Title'', JObject [(''name'', JString ''X'')])]\<close>
proof -
  have a: \<open>validated (final_state (process_file decode_sample render_ok [] same_title_lines))
     = [(''Title'', JObject [(''name'', JString ''X'')]),
        (''Title'', JObject [(''name'', JString ''X'')])]\<close>
    by code_simp
  note t = extraction_deterministic [where decode = decode_sample and generate_pdf = render_ok
      and fs = "[]" and lines = same_title_lines and generate_pdf' = render_fail
      and fs' = "[''Title.pdf'']"]
  from t [THEN conjunct1, symmetric] a
  have b: \<open>validated (final_state (process_file decode_sample render_fail [''Title.pdf''] same_title_lines))
     = [(''Title'', JObject [(''name'', JString ''X'')]),
        (''Title'', JObject [(''name'', JString ''X'')])]\<close>
    by (rule trans)
  from a b show ?thesis by (rule conjI)
qed

end
